theory Spec2Isabelle
  imports Complex_Main "HOL-Library.Sublist"
begin

section \<open>The React front end: \<open>App\<close> of the upload-capable \<open>App.js\<close>\<close>

text \<open>
  The component keeps six pieces of React state. Each handler below is the source's
  handler as a function from the state it runs in to the state it leaves; what the
  environment decides (the browser's file list, whether a request resolves and with
  what) is an argument of the handler.
\<close>

subsection \<open>JavaScript values that reach the state\<close>

text \<open>
  \<open>response.data\<close> is whatever axios decoded from the body, so the two transcript
  fields of the state hold an arbitrary JavaScript value, not always a string.
\<close>

datatype jsval =
    Undefined
  | JNull
  | JBool bool
  | JNum rat
  | JStr string
  | JArr "jsval list"
  | JObj "(string \<times> jsval) list"

datatype axios_error = NetworkError | Timeout | BadStatus nat jsval

datatype js_error = AxiosErr axios_error | TypeError

datatype response = Response (status: nat) (data: jsval)

type_synonym post_outcome = "axios_error + response"

text \<open>
  \<open>v.k\<close> for the two keys the component reads (\<open>transcript\<close>, \<open>srt_transcript\<close>):
  reading a property of \<open>undefined\<close> or \<open>null\<close> throws a TypeError, an object yields
  the property or \<open>undefined\<close>, and no other value has a property of these names.
\<close>

fun read_field :: "jsval \<Rightarrow> string \<Rightarrow> js_error + jsval" where
  "read_field Undefined k = Inl TypeError"
| "read_field JNull k = Inl TypeError"
| "read_field (JObj kvs) k = Inr (case map_of kvs k of None \<Rightarrow> Undefined | Some v \<Rightarrow> v)"
| "read_field v k = Inr Undefined"

subsection \<open>Files and the component's state\<close>

record js_file =
  file_name :: string
  file_type :: string
  file_bytes :: "char list"

record app_state =
  isRecording :: bool
  isTranscribing :: bool
  transcript :: jsval
  srtTranscript :: jsval
  error :: string
  uploadedFile :: "js_file option"

definition initial_state :: app_state where
  "initial_state =
     \<lparr>isRecording = False, isTranscribing = False, transcript = JStr [],
      srtTranscript = JStr [], error = [], uploadedFile = None\<rparr>"

text \<open>\<open>file.type.startsWith('audio/')\<close>\<close>

definition is_audio :: "js_file \<Rightarrow> bool" where
  "is_audio f = prefix ''audio/'' (file_type f)"

subsection \<open>\<open>handleFileUpload\<close>\<close>

text \<open>
  The argument is \<open>event.target.files\<close>; \<open>files[0]\<close> of an empty list is
  \<open>undefined\<close>, and the handler then does nothing.
\<close>

definition handleFileUpload :: "app_state \<Rightarrow> js_file list \<Rightarrow> app_state" where
  "handleFileUpload s files =
     (case files of
        [] \<Rightarrow> s
      | f # _ \<Rightarrow>
          if \<not> is_audio f
          then s\<lparr>error := ''Please upload a valid audio file (mp3, wav, m4a, etc.)''\<rparr>
          else s\<lparr>uploadedFile := Some f, error := [], transcript := JStr [],
                 srtTranscript := JStr []\<rparr>)"

subsection \<open>\<open>transcribeFile\<close>\<close>

text \<open>
  The function is asynchronous: it runs up to the \<open>await\<close>, and its continuation runs
  when the request settles, on whatever the state is by then.
\<close>

definition transcribeFile_entry :: "app_state \<Rightarrow> app_state" where
  "transcribeFile_entry s = s\<lparr>isTranscribing := True\<rparr>"

text \<open>
  The \<open>try\<close> block after the \<open>await\<close>: the state its statements have reached, and
  the error thrown, if any. The second setter runs after the first, so an error thrown
  between them would leave the first one's effect.
\<close>

definition transcribeFile_try :: "app_state \<Rightarrow> post_outcome \<Rightarrow> app_state \<times> js_error option" where
  "transcribeFile_try s outcome =
     (case outcome of
        Inl e \<Rightarrow> (s, Some (AxiosErr e))
      | Inr resp \<Rightarrow>
          (case read_field (data resp) ''transcript'' of
             Inl e \<Rightarrow> (s, Some e)
           | Inr t \<Rightarrow>
               (case read_field (data resp) ''srt_transcript'' of
                  Inl e \<Rightarrow> (s\<lparr>transcript := t\<rparr>, Some e)
                | Inr srt \<Rightarrow> (s\<lparr>transcript := t, srtTranscript := srt\<rparr>, None))))"

definition transcribe_failed_msg :: string where
  "transcribe_failed_msg =
     ''Failed to transcribe audio. Please check the backend server and try again.''"

text \<open>\<open>catch\<close> (the error itself only goes to the console) and \<open>finally\<close>.\<close>

definition transcribeFile_settle :: "app_state \<Rightarrow> post_outcome \<Rightarrow> app_state" where
  "transcribeFile_settle s outcome =
     (case transcribeFile_try s outcome of
        (s', None) \<Rightarrow> s'\<lparr>isTranscribing := False\<rparr>
      | (s', Some e) \<Rightarrow> s'\<lparr>error := transcribe_failed_msg, isTranscribing := False\<rparr>)"

text \<open>
  The whole call when nothing else runs in between; \<open>server\<close> is the answer of the
  transcription endpoint to the posted file.
\<close>

definition transcribeFile :: "(js_file \<Rightarrow> post_outcome) \<Rightarrow> app_state \<Rightarrow> js_file \<Rightarrow> app_state" where
  "transcribeFile server s audioFile =
     transcribeFile_settle (transcribeFile_entry s) (server audioFile)"

text \<open>The error the \<open>catch\<close> clause receives, if the call takes that branch.\<close>

definition transcribe_thrown :: "app_state \<Rightarrow> post_outcome \<Rightarrow> js_error option" where
  "transcribe_thrown s outcome = snd (transcribeFile_try s outcome)"

subsection \<open>Recording\<close>

text \<open>
  \<open>handleStartRecording\<close> clears the state and then awaits the microphone. The
  \<open>try\<close> block can throw before \<open>setIsRecording(true)\<close> (permission refused, no
  MediaRecorder) or after it (the Web Audio set-up).
\<close>

datatype start_outcome = Started | FailedBeforeStart | FailedAfterStart

definition handleStartRecording_entry :: "app_state \<Rightarrow> app_state" where
  "handleStartRecording_entry s =
     s\<lparr>error := [], transcript := JStr [], srtTranscript := JStr [], uploadedFile := None\<rparr>"

definition start_failed_msg :: string where
  "start_failed_msg =
     ''Could not start recording. Please ensure microphone permissions are enabled.''"

definition handleStartRecording_settle :: "app_state \<Rightarrow> start_outcome \<Rightarrow> app_state" where
  "handleStartRecording_settle s outcome =
     (case outcome of
        Started \<Rightarrow> s\<lparr>isRecording := True\<rparr>
      | FailedBeforeStart \<Rightarrow> s\<lparr>error := start_failed_msg\<rparr>
      | FailedAfterStart \<Rightarrow> s\<lparr>isRecording := True, error := start_failed_msg\<rparr>)"

text \<open>\<open>has_recorder\<close>: whether \<open>mediaRecorderRef.current\<close> is set.\<close>

definition handleStopRecording :: "app_state \<Rightarrow> bool \<Rightarrow> app_state" where
  "handleStopRecording s has_recorder =
     (if has_recorder \<and> isRecording s then s\<lparr>isRecording := False\<rparr> else s)"

text \<open>The file \<open>handleTranscription\<close> builds from the recorded chunks.\<close>

definition recording_file :: "char list \<Rightarrow> js_file" where
  "recording_file chunks =
     \<lparr>file_name = ''recording.webm'', file_type = ''audio/webm'', file_bytes = chunks\<rparr>"

text \<open>
  \<open>handleTranscription\<close> and \<open>handleUploadTranscription\<close> up to the \<open>await\<close> inside
  \<open>transcribeFile\<close>: the state they leave and the file they post, if any.
\<close>

definition handleTranscription_entry :: "app_state \<Rightarrow> char list \<Rightarrow> app_state \<times> js_file option" where
  "handleTranscription_entry s chunks =
     (transcribeFile_entry (s\<lparr>isTranscribing := True\<rparr>), Some (recording_file chunks))"

definition handleUploadTranscription_entry :: "app_state \<Rightarrow> app_state \<times> js_file option" where
  "handleUploadTranscription_entry s =
     (case uploadedFile s of
        None \<Rightarrow> (s\<lparr>error := ''Please select an audio file first''\<rparr>, None)
      | Some f \<Rightarrow> (transcribeFile_entry s, Some f))"

subsection \<open>Downloads\<close>

record download =
  dl_name :: string
  dl_bytes :: "char list"

text \<open>
  The JSON bodies the two handlers post: \<open>{ transcript }\<close> to the text endpoint and
  \<open>{ srt_transcript: srtTranscript }\<close> to the subtitle endpoint.
\<close>

definition download_text_body :: "app_state \<Rightarrow> jsval" where
  "download_text_body s = JObj [(''transcript'', transcript s)]"

definition download_srt_body :: "app_state \<Rightarrow> jsval" where
  "download_srt_body s = JObj [(''srt_transcript'', srtTranscript s)]"

text \<open>
  The handlers after the request has settled; the argument is the outcome: an error, or
  the response body as a blob. On success the blob is saved under a fixed name and the
  state is left as it is.
\<close>

definition handleDownloadText :: "app_state \<Rightarrow> axios_error + char list \<Rightarrow> app_state \<times> download option" where
  "handleDownloadText s outcome =
     (case outcome of
        Inl e \<Rightarrow> (s\<lparr>error := ''Failed to download transcript file.''\<rparr>, None)
      | Inr blob \<Rightarrow> (s, Some \<lparr>dl_name = ''transcript.txt'', dl_bytes = blob\<rparr>))"

definition handleDownloadSRT :: "app_state \<Rightarrow> axios_error + char list \<Rightarrow> app_state \<times> download option" where
  "handleDownloadSRT s outcome =
     (case outcome of
        Inl e \<Rightarrow> (s\<lparr>error := ''Failed to download SRT file.''\<rparr>, None)
      | Inr blob \<Rightarrow> (s, Some \<lparr>dl_name = ''subtitles.srt'', dl_bytes = blob\<rparr>))"

subsection \<open>The component as a transition system\<close>

text \<open>
  One event per handler invocation or continuation. The buttons' \<open>disabled\<close>
  attributes are not modelled: every event may come in every state, which only adds
  runs.
\<close>

datatype event =
    StartRecordingClicked
  | StartRecordingSettled start_outcome
  | StopRecordingClicked bool
  | RecorderStopped "char list"
  | FileChosen "js_file list"
  | TranscribeFileClicked
  | TranscribeSettled post_outcome
  | DownloadTextClicked "axios_error + char list"
  | DownloadSRTClicked "axios_error + char list"
  | CopyClicked

text \<open>The state after an event, and the files it posts to the transcription endpoint.\<close>

fun step :: "app_state \<Rightarrow> event \<Rightarrow> app_state \<times> js_file list" where
  "step s StartRecordingClicked = (handleStartRecording_entry s, [])"
| "step s (StartRecordingSettled outcome) = (handleStartRecording_settle s outcome, [])"
| "step s (StopRecordingClicked has_recorder) = (handleStopRecording s has_recorder, [])"
| "step s (RecorderStopped chunks) =
     (case handleTranscription_entry s chunks of (s', posted) \<Rightarrow> (s', case posted of None \<Rightarrow> [] | Some f \<Rightarrow> [f]))"
| "step s (FileChosen files) = (handleFileUpload s files, [])"
| "step s TranscribeFileClicked =
     (case handleUploadTranscription_entry s of (s', posted) \<Rightarrow> (s', case posted of None \<Rightarrow> [] | Some f \<Rightarrow> [f]))"
| "step s (TranscribeSettled outcome) = (transcribeFile_settle s outcome, [])"
| "step s (DownloadTextClicked outcome) = (fst (handleDownloadText s outcome), [])"
| "step s (DownloadSRTClicked outcome) = (fst (handleDownloadSRT s outcome), [])"
| "step s CopyClicked = (s, [])"

fun run :: "app_state \<Rightarrow> event list \<Rightarrow> app_state \<times> js_file list" where
  "run s [] = (s, [])"
| "run s (e # es) =
     (case step s e of (s', posted) \<Rightarrow>
        (case run s' es of (s'', later) \<Rightarrow> (s'', posted @ later)))"

text \<open>
  What the later invariant says of a state: the selected file, if any, is audio-typed.
\<close>

definition audio_or_none :: "app_state \<Rightarrow> bool" where
  "audio_or_none s = (case uploadedFile s of None \<Rightarrow> True | Some f \<Rightarrow> is_audio f)"

section \<open>The Transcript Formatter\<close>

text \<open>
  The back end that formats the recognised segments is not among the sources; only the
  front end that displays and downloads its output is. Each definition of this section
  is therefore written from the specification's description of the Formatter, and says
  so. Seconds are exact rationals here, so every statement below is about the
  Formatter's arithmetic as specified, not about the rounding of a floating-point
  implementation.
\<close>

text \<open>
  Modelled from the spec: the Segment of the data model (the Recognition Adapter's
  output type, absent from the sources): index, start and end in seconds, text.
\<close>

record segment =
  seg_index :: nat
  seg_start :: rat
  seg_end :: rat
  seg_text :: string

text \<open>
  Modelled from the spec: one subtitle cue as the Formatter emits it (absent from the
  sources): the 1-based index, start and end in whole milliseconds, and the text.
\<close>

record cue =
  cue_index :: nat
  cue_start :: nat
  cue_end :: nat
  cue_text :: string

text \<open>
  Modelled from the spec: milliseconds "computed by truncation (not rounding) from the
  float seconds value" (the back end's conversion is absent from the sources).
\<close>

definition to_millis :: "rat \<Rightarrow> nat" where
  "to_millis x = nat \<lfloor>x * 1000\<rfloor>"

text \<open>
  Modelled from the spec: "a segment whose duration rounds to zero milliseconds must
  still render a start/end pair with start < end enforced by clamping end to
  start + 1ms": the end of a cue in milliseconds is the truncated end of the segment,
  unless that does not lie after the truncated start; then it is the truncated start
  plus one millisecond. A segment with start == end is one such case (the back end's
  cue timing is absent from the sources).
\<close>

definition clamped_end :: "segment \<Rightarrow> nat" where
  "clamped_end seg =
     (if to_millis (seg_end seg) \<le> to_millis (seg_start seg)
      then to_millis (seg_start seg) + 1
      else to_millis (seg_end seg))"

text \<open>
  Modelled from the spec: the cue of one segment, "one cue per segment", with the
  index it is given (the back end's loop body is absent from the sources).
\<close>

definition cue_of :: "nat \<Rightarrow> segment \<Rightarrow> cue" where
  "cue_of i seg =
     \<lparr>cue_index = i, cue_start = to_millis (seg_start seg),
      cue_end = clamped_end seg, cue_text = seg_text seg\<rparr>"

text \<open>
  Modelled from the spec: the cues of a segment sequence, numbered consecutively from
  the given index (the back end's loop is absent from the sources).
\<close>

fun cues_from :: "nat \<Rightarrow> segment list \<Rightarrow> cue list" where
  "cues_from i [] = []"
| "cues_from i (seg # segs) = cue_of i seg # cues_from (Suc i) segs"

text \<open>
  Modelled from the spec: the cues of \<open>format(segments)\<close>, indexed from 1 ("1-based
  index"; the back end's \<open>format\<close> is absent from the sources).
\<close>

definition cues :: "segment list \<Rightarrow> cue list" where
  "cues segs = cues_from 1 segs"

text \<open>
  Modelled from the spec: the decimal digits, as the index line and the timecode fields
  need them (the back end's number formatting is absent from the sources).
\<close>

definition digit_char :: "nat \<Rightarrow> char" where
  "digit_char d = ''0123456789'' ! d"

text \<open>
  Modelled from the spec: the decimal numeral of a number, most significant digit first
  (the back end's number formatting is absent from the sources).
\<close>

function show_nat :: "nat \<Rightarrow> string" where
  "show_nat n = (if n < 10 then [digit_char n] else show_nat (n div 10) @ [digit_char (n mod 10)])"
  by pat_completeness auto
termination
  by (relation "measure id") auto

declare show_nat.simps [simp del]

text \<open>
  Modelled from the spec: "zero-padded to 2 digits", "zero-padded to 3 digits" (absent
  from the sources).
\<close>

definition zero_pad :: "nat \<Rightarrow> string \<Rightarrow> string" where
  "zero_pad w s = replicate (w - length s) CHR ''0'' @ s"

text \<open>
  Modelled from the spec: the timecode \<open>HH:MM:SS,mmm\<close> of a number of milliseconds
  (the back end's \<open>format_timecode\<close> is absent from the sources).
\<close>

definition format_millis :: "nat \<Rightarrow> string" where
  "format_millis ms =
     zero_pad 2 (show_nat (ms div 3600000)) @ '':'' @
     zero_pad 2 (show_nat (ms div 60000 mod 60)) @ '':'' @
     zero_pad 2 (show_nat (ms div 1000 mod 60)) @ '','' @
     zero_pad 3 (show_nat (ms mod 1000))"

text \<open>
  Modelled from the spec: \<open>format_timecode\<close> of a seconds value: the timecode of its
  truncation to milliseconds (absent from the sources).
\<close>

definition format_timecode :: "rat \<Rightarrow> string" where
  "format_timecode x = format_millis (to_millis x)"

text \<open>
  Modelled from the spec: the three lines of a cue, "<1-based index>",
  "<start as HH:MM:SS,mmm> --> <end as HH:MM:SS,mmm>", "<segment text>" (the back
  end's rendering is absent from the sources).
\<close>

definition render_cue :: "cue \<Rightarrow> string list" where
  "render_cue c =
     [show_nat (cue_index c),
      format_millis (cue_start c) @ '' --> '' @ format_millis (cue_end c),
      cue_text c]"

text \<open>
  Modelled from the spec: joining with a separator, for "blank line separated" cues
  and the line breaks between a cue's lines (absent from the sources).
\<close>

fun join_with :: "'a list \<Rightarrow> 'a list list \<Rightarrow> 'a list" where
  "join_with sep [] = []"
| "join_with sep [x] = x"
| "join_with sep (x # y # ys) = x @ sep @ join_with sep (y # ys)"

text \<open>
  Modelled from the spec: the line break between the lines of the subtitle document
  (absent from the sources).
\<close>

definition newline :: char where
  "newline = CHR 0x0A"

text \<open>
  Modelled from the spec: the \<open>subtitleText\<close> field of \<open>format(segments)\<close>: the
  cues' lines with one empty line between cues, joined by line breaks (the back end's
  \<open>format\<close> is absent from the sources).
\<close>

definition subtitleText :: "segment list \<Rightarrow> string" where
  "subtitleText segs =
     join_with [newline] (join_with [[]] (map render_cue (cues segs)))"

subsection \<open>Reading a subtitle document back\<close>

text \<open>
  Modelled from the spec: the reader that the testable property "parses back into the
  same number of cues" needs (no parser is among the sources). It follows the cue
  structure the Formatter is specified to write: lines split at line breaks, cues split
  at empty lines, a decimal index line, a line of two timecodes around \<open>-->\<close>, and
  the remaining lines as the text.
\<close>

fun split_on :: "'a \<Rightarrow> 'a list \<Rightarrow> 'a list list" where
  "split_on c [] = [[]]"
| "split_on c (x # xs) =
     (if x = c then [] # split_on c xs
      else (case split_on c xs of [] \<Rightarrow> [[x]] | p # ps \<Rightarrow> (x # p) # ps))"

text \<open>
  Modelled from the spec: the value of a decimal digit, for reading the index line and
  the timecode fields (no reader is among the sources).
\<close>

definition digit_val :: "char \<Rightarrow> nat option" where
  "digit_val c =
     map_of [(CHR ''0'', 0), (CHR ''1'', 1), (CHR ''2'', 2), (CHR ''3'', 3), (CHR ''4'', 4),
             (CHR ''5'', 5), (CHR ''6'', 6), (CHR ''7'', 7), (CHR ''8'', 8), (CHR ''9'', 9)] c"

text \<open>
  Modelled from the spec: reading a run of decimal digits, and a numeral of at least one
  digit (no reader is among the sources).
\<close>

fun parse_digits :: "nat \<Rightarrow> string \<Rightarrow> nat option" where
  "parse_digits acc [] = Some acc"
| "parse_digits acc (c # cs) =
     (case digit_val c of None \<Rightarrow> None | Some d \<Rightarrow> parse_digits (acc * 10 + d) cs)"

definition parse_nat :: "string \<Rightarrow> nat option" where
  "parse_nat s = (if s = [] then None else parse_digits 0 s)"

text \<open>
  Modelled from the spec: reading \<open>HH:MM:SS,mmm\<close> back into milliseconds: at least two
  hour digits, two minute and two second digits below 60, three millisecond digits (no
  reader is among the sources).
\<close>

definition parse_timecode :: "string \<Rightarrow> nat option" where
  "parse_timecode s =
     (case split_on CHR '':'' s of
        [hh, mm, rest] \<Rightarrow>
          (case split_on CHR '','' rest of
             [ss, mmm] \<Rightarrow>
               (case (parse_nat hh, parse_nat mm, parse_nat ss, parse_nat mmm) of
                  (Some h, Some m, Some sec, Some ms) \<Rightarrow>
                    if 2 \<le> length hh \<and> length mm = 2 \<and> length ss = 2 \<and> length mmm = 3 \<and>
                       m < 60 \<and> sec < 60
                    then Some (((h * 60 + m) * 60 + sec) * 1000 + ms)
                    else None
                | _ \<Rightarrow> None)
           | _ \<Rightarrow> None)
      | _ \<Rightarrow> None)"

text \<open>
  Modelled from the spec: reading the line "<start> --> <end>" (no reader is among the
  sources).
\<close>

definition parse_times :: "string \<Rightarrow> (nat \<times> nat) option" where
  "parse_times s =
     (case split_on CHR '' '' s of
        [a, arrow, b] \<Rightarrow>
          (case (parse_timecode a, parse_timecode b) of
             (Some x, Some y) \<Rightarrow> if arrow = ''-->'' then Some (x, y) else None
           | _ \<Rightarrow> None)
      | _ \<Rightarrow> None)"

text \<open>
  Modelled from the spec: reading one cue from its lines: index, timecodes, and the
  remaining lines as the text (no reader is among the sources).
\<close>

definition parse_cue :: "string list \<Rightarrow> cue option" where
  "parse_cue ls =
     (case ls of
        l1 # l2 # l3 # ls3 \<Rightarrow>
          (case (parse_nat l1, parse_times l2) of
             (Some i, Some (a, b)) \<Rightarrow>
               Some \<lparr>cue_index = i, cue_start = a, cue_end = b,
                     cue_text = join_with [newline] (l3 # ls3)\<rparr>
           | _ \<Rightarrow> None)
      | _ \<Rightarrow> None)"

text \<open>
  Modelled from the spec: reading every cue of a document; one unreadable cue makes the
  document unreadable (no reader is among the sources).
\<close>

fun parse_all :: "string list list \<Rightarrow> cue list option" where
  "parse_all [] = Some []"
| "parse_all (b # bs) =
     (case parse_cue b of
        None \<Rightarrow> None
      | Some c \<Rightarrow> (case parse_all bs of None \<Rightarrow> None | Some cs \<Rightarrow> Some (c # cs)))"

text \<open>
  Modelled from the spec: reading \<open>subtitleText\<close> back: the empty document has no cues;
  otherwise lines are split at line breaks and cues at empty lines (no reader is among
  the sources).
\<close>

definition parse_srt :: "string \<Rightarrow> cue list option" where
  "parse_srt doc =
     (if doc = [] then Some [] else parse_all (split_on [] (split_on newline doc)))"

subsection \<open>Texts that read back\<close>

text \<open>
  Segment texts of one non-empty line each: the texts a reader can tell apart from the
  cue structure around them.
\<close>

definition plain_lines :: "segment list \<Rightarrow> bool" where
  "plain_lines segs =
     list_all (\<lambda>seg. seg_text seg \<noteq> [] \<and> newline \<notin> set (seg_text seg)) segs"

section \<open>Properties of the front end\<close>

subsection \<open>Auxiliary facts\<close>

lemma read_field_Inl: "read_field v k = Inl e \<longleftrightarrow> (v = Undefined \<or> v = JNull) \<and> e = TypeError"
  by (cases v) auto

lemma transcribe_thrown_iff:
  "transcribe_thrown s outcome \<noteq> None \<longleftrightarrow>
     (case outcome of Inl e \<Rightarrow> True | Inr resp \<Rightarrow> data resp = Undefined \<or> data resp = JNull)"
  by (cases outcome; cases "data (projr outcome)")
     (auto simp: transcribe_thrown_def transcribeFile_try_def split: sum.splits)

lemma settle_thrown:
  "transcribe_thrown s outcome = Some e \<Longrightarrow>
   transcribeFile_settle s outcome = s\<lparr>error := transcribe_failed_msg, isTranscribing := False\<rparr>"
  by (auto simp: transcribe_thrown_def transcribeFile_try_def transcribeFile_settle_def read_field_Inl
      split: sum.splits)

lemma settle_flag: "\<not> isTranscribing (transcribeFile_settle s outcome)"
  by (auto simp: transcribeFile_settle_def split: prod.splits option.splits)

lemma settle_uploaded: "uploadedFile (transcribeFile_settle s outcome) = uploadedFile s"
  by (auto simp: transcribeFile_settle_def transcribeFile_try_def split: prod.splits option.splits sum.splits)

lemma step_inv:
  "audio_or_none s \<Longrightarrow> step s e = (s', posted) \<Longrightarrow> audio_or_none s' \<and> (\<forall>g \<in> set posted. is_audio g)"
  apply (cases e)
  apply (auto simp: audio_or_none_def handleStartRecording_entry_def handleStartRecording_settle_def
      handleStopRecording_def handleTranscription_entry_def handleUploadTranscription_entry_def
      handleFileUpload_def handleDownloadText_def handleDownloadSRT_def transcribeFile_entry_def
      settle_uploaded recording_file_def is_audio_def
      split: option.splits list.splits start_outcome.splits if_splits sum.splits)
  done

lemma run_inv:
  "audio_or_none s \<Longrightarrow> run s es = (s', posted) \<Longrightarrow> audio_or_none s' \<and> (\<forall>g \<in> set posted. is_audio g)"
proof (induction es arbitrary: s s' posted)
  case Nil
  then show ?case by simp
next
  case (Cons e es)
  obtain s1 p1 where st: "step s e = (s1, p1)" by (cases "step s e")
  obtain s2 p2 where rn: "run s1 es = (s2, p2)" by (cases "run s1 es")
  from Cons.prems(2) st rn have eq: "s' = s2" "posted = p1 @ p2" by auto
  from step_inv[OF Cons.prems(1) st] have a: "audio_or_none s1" "\<forall>g \<in> set p1. is_audio g" by auto
  from Cons.IH[OF a(1) rn] have b: "audio_or_none s2" "\<forall>g \<in> set p2. is_audio g" by auto
  from a b eq show ?case by auto
qed

subsection \<open>The upload guard\<close>

text \<open>
  Claim C9. For every file chosen through the upload handler whose MIME type does not
  start with \<open>audio/\<close>, \<open>handleFileUpload\<close> sets an error message and returns
  without setting \<open>uploadedFile\<close>; for a file that passes the check, the file is stored
  and the previous error, transcript and srtTranscript are cleared. As a consequence, in
  every run of the component from its initial state, every file posted to the
  transcription endpoint is audio-typed.
\<close>

theorem handleFileUpload_audio_only:
  "(\<not> is_audio f \<longrightarrow>
      handleFileUpload s (f # fs) =
        s\<lparr>error := ''Please upload a valid audio file (mp3, wav, m4a, etc.)''\<rparr> \<and>
      uploadedFile (handleFileUpload s (f # fs)) = uploadedFile s \<and>
      error (handleFileUpload s (f # fs)) \<noteq> []) \<and>
   (is_audio f \<longrightarrow>
      handleFileUpload s (f # fs) =
        s\<lparr>uploadedFile := Some f, error := [], transcript := JStr [], srtTranscript := JStr []\<rparr>) \<and>
   (\<forall>g \<in> set (snd (run initial_state es)). is_audio g)"
proof -
  have init: "audio_or_none initial_state"
    by (simp add: audio_or_none_def initial_state_def)
  obtain s' posted where r: "run initial_state es = (s', posted)"
    by (cases "run initial_state es")
  from run_inv[OF init r] r have "\<forall>g \<in> set (snd (run initial_state es)). is_audio g"
    by simp
  then show ?thesis
    by (simp add: handleFileUpload_def)
qed

text \<open>
  The theorem at a PDF (rejected, nothing selected), at an MP3 chosen over an old error
  and transcript (selected, both cleared), and on a run in which the transcribe button
  is pressed after each choice: only the MP3 is posted.
\<close>

theorem handleFileUpload_audio_only_witness:
  "\<not> is_audio \<lparr>file_name = ''notes.pdf'', file_type = ''application/pdf'', file_bytes = []\<rparr> \<and>
   uploadedFile (handleFileUpload initial_state
     [\<lparr>file_name = ''notes.pdf'', file_type = ''application/pdf'', file_bytes = []\<rparr>]) = None \<and>
   error (handleFileUpload initial_state
     [\<lparr>file_name = ''notes.pdf'', file_type = ''application/pdf'', file_bytes = []\<rparr>]) =
     ''Please upload a valid audio file (mp3, wav, m4a, etc.)'' \<and>
   is_audio \<lparr>file_name = ''talk.mp3'', file_type = ''audio/mpeg'', file_bytes = []\<rparr> \<and>
   handleFileUpload
     (initial_state\<lparr>error := ''old'', transcript := JStr ''old text''\<rparr>)
     [\<lparr>file_name = ''talk.mp3'', file_type = ''audio/mpeg'', file_bytes = []\<rparr>] =
     initial_state\<lparr>uploadedFile :=
       Some \<lparr>file_name = ''talk.mp3'', file_type = ''audio/mpeg'', file_bytes = []\<rparr>\<rparr> \<and>
   snd (run initial_state
     [FileChosen [\<lparr>file_name = ''notes.pdf'', file_type = ''application/pdf'', file_bytes = []\<rparr>],
      TranscribeFileClicked,
      FileChosen [\<lparr>file_name = ''talk.mp3'', file_type = ''audio/mpeg'', file_bytes = []\<rparr>],
      TranscribeFileClicked]) =
     [\<lparr>file_name = ''talk.mp3'', file_type = ''audio/mpeg'', file_bytes = []\<rparr>]"
  using handleFileUpload_audio_only
    [where f = "\<lparr>file_name = ''notes.pdf'', file_type = ''application/pdf'', file_bytes = []\<rparr>"
        and s = initial_state and fs = "[]" and es =
        "[FileChosen [\<lparr>file_name = ''notes.pdf'', file_type = ''application/pdf'', file_bytes = []\<rparr>],
          TranscribeFileClicked,
          FileChosen [\<lparr>file_name = ''talk.mp3'', file_type = ''audio/mpeg'', file_bytes = []\<rparr>],
          TranscribeFileClicked]"]
    handleFileUpload_audio_only
    [where f = "\<lparr>file_name = ''talk.mp3'', file_type = ''audio/mpeg'', file_bytes = []\<rparr>"
        and s = "initial_state\<lparr>error := ''old'', transcript := JStr ''old text''\<rparr>"
        and fs = "[]" and es = "[]"]
  by (simp add: is_audio_def initial_state_def handleFileUpload_def
      handleUploadTranscription_entry_def transcribeFile_entry_def)

subsection \<open>The transcribing flag and the failure path\<close>

text \<open>
  Claim C10. For every call of \<open>transcribeFile\<close>, \<open>isTranscribing\<close> is true once the
  call has started and false once it has finished, whether the request succeeded or
  not. The call fails exactly when the request is rejected or its body is \<open>null\<close> or
  \<open>undefined\<close>; then the state it leaves is the one it found with only the error
  message set and the flag reset, so transcript and srtTranscript are unchanged.
\<close>

theorem transcribeFile_flag_and_failure:
  "isTranscribing (transcribeFile_entry s) \<and>
   \<not> isTranscribing (transcribeFile_settle s' outcome) \<and>
   \<not> isTranscribing (transcribeFile server s f) \<and>
   transcribe_thrown s' (Inl e) = Some (AxiosErr e) \<and>
   (transcribe_thrown s' outcome \<noteq> None) =
     (case outcome of Inl e \<Rightarrow> True | Inr resp \<Rightarrow> data resp = Undefined \<or> data resp = JNull) \<and>
   (transcribe_thrown s' outcome \<noteq> None \<longrightarrow>
      transcribeFile_settle s' outcome =
        s'\<lparr>error := transcribe_failed_msg, isTranscribing := False\<rparr> \<and>
      transcript (transcribeFile_settle s' outcome) = transcript s' \<and>
      srtTranscript (transcribeFile_settle s' outcome) = srtTranscript s')"
proof -
  have "transcribe_thrown s' (Inl e) = Some (AxiosErr e)"
    by (simp add: transcribe_thrown_def transcribeFile_try_def)
  moreover have "isTranscribing (transcribeFile_entry s)"
    by (simp add: transcribeFile_entry_def)
  moreover have "\<not> isTranscribing (transcribeFile server s f)"
    by (simp add: transcribeFile_def settle_flag)
  moreover have "transcribe_thrown s' outcome \<noteq> None \<Longrightarrow>
      transcribeFile_settle s' outcome =
        s'\<lparr>error := transcribe_failed_msg, isTranscribing := False\<rparr>"
    using settle_thrown by blast
  ultimately show ?thesis
    using settle_flag transcribe_thrown_iff by auto
qed

text \<open>
  The theorem at a network error and at a response without a body, both arriving
  while the flag is set.
\<close>

theorem transcribeFile_flag_and_failure_witness:
  "transcribe_thrown (initial_state\<lparr>isTranscribing := True\<rparr>) (Inl NetworkError) \<noteq> None \<and>
   transcribeFile_settle (initial_state\<lparr>isTranscribing := True\<rparr>) (Inl NetworkError) =
     initial_state\<lparr>error := transcribe_failed_msg\<rparr> \<and>
   transcribe_thrown (initial_state\<lparr>isTranscribing := True\<rparr>) (Inr (Response 200 JNull)) \<noteq> None \<and>
   transcript (transcribeFile_settle (initial_state\<lparr>isTranscribing := True\<rparr>)
     (Inr (Response 200 JNull))) = JStr []"
  using transcribeFile_flag_and_failure
    [where s' = "initial_state\<lparr>isTranscribing := True\<rparr>" and outcome = "Inl NetworkError"]
    transcribeFile_flag_and_failure
    [where s' = "initial_state\<lparr>isTranscribing := True\<rparr>" and outcome = "Inr (Response 200 JNull)"]
  by (simp add: initial_state_def transcribe_thrown_def transcribeFile_try_def)

section \<open>Properties of the Formatter as specified\<close>

subsection \<open>Splitting undoes joining\<close>

lemma split_on_no_sep: "c \<notin> set xs \<Longrightarrow> split_on c xs = [xs]"
  by (induction xs) auto

lemma split_on_append_sep:
  "c \<notin> set xs \<Longrightarrow> split_on c (xs @ c # ys) = xs # split_on c ys"
  by (induction xs) auto

lemma split_on_join:
  "xss \<noteq> [] \<Longrightarrow> \<forall>xs \<in> set xss. c \<notin> set xs \<Longrightarrow> split_on c (join_with [c] xss) = xss"
proof (induction "[c]" xss rule: join_with.induct)
  case 1
  then show ?case by simp
next
  case (2 x)
  then show ?case by (simp add: split_on_no_sep)
next
  case (3 x y ys)
  then show ?case by (simp add: split_on_append_sep)
qed

subsection \<open>Numerals\<close>

lemma digit_cases: "d < 10 \<Longrightarrow> d = 0 \<or> d = 1 \<or> d = 2 \<or> d = 3 \<or> d = 4 \<or> d = 5 \<or> d = 6 \<or> d = 7 \<or> d = 8 \<or> d = (9::nat)"
  by arith

lemma digit_val_digit_char: "d < 10 \<Longrightarrow> digit_val (digit_char d) = Some d"
  using digit_cases[of d] by (auto simp: digit_val_def digit_char_def)

lemma digit_char_in: "d < 10 \<Longrightarrow> digit_char d \<in> set ''0123456789''"
  using digit_cases[of d] by (auto simp: digit_char_def)

lemma parse_digits_append:
  "parse_digits acc (xs @ ys) =
     (case parse_digits acc xs of None \<Rightarrow> None | Some a \<Rightarrow> parse_digits a ys)"
  by (induction xs arbitrary: acc) (auto split: option.splits)

lemma parse_digits_show_nat: "parse_digits 0 (show_nat n) = Some n"
proof (induction n rule: show_nat.induct)
  case (1 n)
  show ?case
  proof (cases "n < 10")
    case True
    then show ?thesis
      by (subst show_nat.simps) (simp add: digit_val_digit_char)
  next
    case False
    with 1 have "parse_digits 0 (show_nat (n div 10)) = Some (n div 10)" by simp
    with False show ?thesis
      by (subst show_nat.simps) (simp add: parse_digits_append digit_val_digit_char)
  qed
qed

lemma show_nat_digits: "set (show_nat n) \<subseteq> set ''0123456789''"
proof (induction n rule: show_nat.induct)
  case (1 n)
  show ?case
  proof (cases "n < 10")
    case True
    then show ?thesis
      using digit_char_in[of n] by (subst show_nat.simps) simp
  next
    case False
    with 1 have "set (show_nat (n div 10)) \<subseteq> set ''0123456789''" by simp
    with False show ?thesis
      using digit_char_in[of "n mod 10"] by (subst show_nat.simps) simp
  qed
qed

lemma show_nat_nonempty: "show_nat n \<noteq> []"
  by (subst show_nat.simps) simp

lemma length_show_nat_10: "n < 10 \<Longrightarrow> length (show_nat n) = 1"
  by (subst show_nat.simps) simp

lemma length_show_nat_100: "n < 100 \<Longrightarrow> length (show_nat n) \<le> 2"
  by (subst show_nat.simps) (simp add: length_show_nat_10)

lemma length_show_nat_1000: "n < 1000 \<Longrightarrow> length (show_nat n) \<le> 3"
  using length_show_nat_100[of "n div 10"] by (subst show_nat.simps) simp

lemma length_show_nat_pos: "1 \<le> length (show_nat n)"
  using show_nat_nonempty[of n] by (cases "show_nat n") auto

lemma parse_digits_zeros: "parse_digits 0 (replicate k CHR ''0'' @ s) = parse_digits 0 s"
  by (induction k) (auto simp: digit_val_def)

lemma parse_nat_zero_pad: "parse_nat (zero_pad w (show_nat n)) = Some n"
  by (simp add: parse_nat_def zero_pad_def parse_digits_zeros parse_digits_show_nat show_nat_nonempty)

lemma zero_pad_digits: "set (zero_pad w (show_nat n)) \<subseteq> set ''0123456789''"
  using show_nat_digits[of n] by (auto simp: zero_pad_def)

lemma length_zero_pad: "length s \<le> w \<Longrightarrow> length (zero_pad w s) = w"
  by (simp add: zero_pad_def)

lemma length_zero_pad_ge: "w \<le> length (zero_pad w s)"
  by (simp add: zero_pad_def)


subsection \<open>Timecodes\<close>

lemma millis_decompose:
  "((ms div 3600000 * 60 + ms div 60000 mod 60) * 60 + ms div 1000 mod 60) * 1000 + ms mod 1000
     = (ms::nat)"
proof -
  define q where "q = ms div 1000"
  have a: "ms div 60000 = q div 60"
    by (simp add: q_def div_mult2_eq)
  have b: "ms div 3600000 = q div 60 div 60"
    by (simp add: q_def div_mult2_eq)
  have "(q div 60 div 60 * 60 + q div 60 mod 60) * 60 + q mod 60 = q"
    by simp
  then show ?thesis
    by (simp add: a b q_def)
qed

lemma millis_decompose_flat:
  "3600000 * (ms div 3600000) + 60000 * (ms div 60000 mod 60) + ms div 1000 mod 60 * 1000 +
     ms mod 1000 = (ms::nat)"
proof -
  have e: "3600000 * A + 60000 * B + C * 1000 + D = ((A * 60 + B) * 60 + C) * 1000 + D"
    for A B C D :: nat
    by simp
  show ?thesis
    by (subst e) (rule millis_decompose)
qed

lemma zero_pad_timecode_chars: "set (zero_pad w (show_nat n)) \<subseteq> set ''0123456789:,''"
proof -
  have "set ''0123456789'' \<subseteq> set ''0123456789:,''"
    by simp
  with zero_pad_digits[of w n] show ?thesis
    by (rule order_trans)
qed

lemma format_millis_chars: "set (format_millis ms) \<subseteq> set ''0123456789:,''"
proof -
  have "set (format_millis ms) =
        set (zero_pad 2 (show_nat (ms div 3600000))) \<union>
        set (zero_pad 2 (show_nat (ms div 60000 mod 60))) \<union>
        set (zero_pad 2 (show_nat (ms div 1000 mod 60))) \<union>
        set (zero_pad 3 (show_nat (ms mod 1000))) \<union> set '':,''"
    by (auto simp: format_millis_def)
  moreover have "set '':,'' \<subseteq> set ''0123456789:,''"
    by simp
  ultimately show ?thesis
    using zero_pad_timecode_chars[of 2 "ms div 3600000"]
      zero_pad_timecode_chars[of 2 "ms div 60000 mod 60"]
      zero_pad_timecode_chars[of 2 "ms div 1000 mod 60"]
      zero_pad_timecode_chars[of 3 "ms mod 1000"]
    by (simp only: Un_subset_iff)
qed

lemma colon_not_digit: "CHR '':'' \<notin> set (zero_pad w (show_nat n))"
  using zero_pad_digits[of w n] by auto

lemma comma_not_digit: "CHR '','' \<notin> set (zero_pad w (show_nat n))"
  using zero_pad_digits[of w n] by auto

lemma parse_timecode_format_millis: "parse_timecode (format_millis ms) = Some ms"
proof -
  define H where "H = zero_pad 2 (show_nat (ms div 3600000))"
  define M where "M = zero_pad 2 (show_nat (ms div 60000 mod 60))"
  define S where "S = zero_pad 2 (show_nat (ms div 1000 mod 60))"
  define R where "R = zero_pad 3 (show_nat (ms mod 1000))"
  have fm: "format_millis ms = H @ CHR '':'' # (M @ CHR '':'' # (S @ CHR '','' # R))"
    by (simp add: format_millis_def H_def M_def S_def R_def)
  have nc: "CHR '':'' \<notin> set H" "CHR '':'' \<notin> set M" "CHR '':'' \<notin> set S" "CHR '':'' \<notin> set R"
    by (simp_all add: H_def M_def S_def R_def colon_not_digit)
  have nk: "CHR '','' \<notin> set S" "CHR '','' \<notin> set R"
    by (simp_all add: S_def R_def comma_not_digit)
  have s1: "split_on CHR '':'' (format_millis ms) = [H, M, S @ CHR '','' # R]"
    using nc by (simp add: fm split_on_append_sep split_on_no_sep)
  have s2: "split_on CHR '','' (S @ CHR '','' # R) = [S, R]"
    using nk by (simp add: split_on_append_sep split_on_no_sep)
  have p: "parse_nat H = Some (ms div 3600000)" "parse_nat M = Some (ms div 60000 mod 60)"
    "parse_nat S = Some (ms div 1000 mod 60)" "parse_nat R = Some (ms mod 1000)"
    by (simp_all add: H_def M_def S_def R_def parse_nat_zero_pad)
  have "length (show_nat (ms div 60000 mod 60)) \<le> 2"
    by (rule length_show_nat_100) simp
  then have lM: "length M = 2"
    by (simp add: M_def length_zero_pad)
  have "length (show_nat (ms div 1000 mod 60)) \<le> 2"
    by (rule length_show_nat_100) simp
  then have lS: "length S = 2"
    by (simp add: S_def length_zero_pad)
  have "length (show_nat (ms mod 1000)) \<le> 3"
    by (rule length_show_nat_1000) simp
  then have lR: "length R = 3"
    by (simp add: R_def length_zero_pad)
  have lH: "2 \<le> length H"
    by (simp add: H_def length_zero_pad_ge)
  show ?thesis
    unfolding parse_timecode_def s1
    by (simp add: s2 p lM lS lR lH millis_decompose_flat)
qed

lemma space_not_in_timecode: "CHR '' '' \<notin> set (format_millis ms)"
  using format_millis_chars[of ms] by auto

lemma newline_not_in_timecode: "newline \<notin> set (format_millis ms)"
  using format_millis_chars[of ms] by (auto simp: newline_def)

lemma newline_not_in_arrow: "newline \<notin> set '' --> ''"
  by (simp add: newline_def)

lemma newline_not_in_show_nat: "newline \<notin> set (show_nat n)"
  using show_nat_digits[of n] by (auto simp: newline_def)

lemma parse_times_line:
  "parse_times (format_millis a @ '' --> '' @ format_millis b) = Some (a, b)"
proof -
  have "format_millis a @ '' --> '' @ format_millis b =
        format_millis a @ CHR '' '' # (''-->'' @ CHR '' '' # format_millis b)"
    by simp
  then have "split_on CHR '' '' (format_millis a @ '' --> '' @ format_millis b) =
        [format_millis a, ''-->'', format_millis b]"
    by (simp only: split_on_append_sep[OF space_not_in_timecode])
       (simp add: split_on_append_sep[of "CHR '' ''" "''-->''", simplified]
          split_on_no_sep[OF space_not_in_timecode])
  then show ?thesis
    by (simp add: parse_times_def parse_timecode_format_millis)
qed

subsection \<open>Cues and documents\<close>

lemma parse_cue_render: "parse_cue (render_cue c) = Some c"
proof -
  have "parse_nat (show_nat (cue_index c)) = Some (cue_index c)"
    by (simp add: parse_nat_def parse_digits_show_nat show_nat_nonempty)
  then show ?thesis
    unfolding parse_cue_def render_cue_def
    by (simp only: list.case parse_times_line prod.case option.case join_with.simps)
       simp
qed

lemma parse_all_render: "parse_all (map render_cue cs) = Some cs"
  by (induction cs) (simp_all add: parse_cue_render)

lemma set_join_with: "set (join_with sep xss) \<subseteq> set sep \<union> \<Union> (set ` set xss)"
  by (induction sep xss rule: join_with.induct) auto

lemma length_cues_from: "length (cues_from i segs) = length segs"
  by (induction segs arbitrary: i) auto

lemma nth_cues_from: "k < length segs \<Longrightarrow> cues_from i segs ! k = cue_of (i + k) (segs ! k)"
proof (induction segs arbitrary: i k)
  case Nil
  then show ?case by simp
next
  case (Cons seg segs)
  then show ?case by (cases k) auto
qed

lemma length_cues: "length (cues segs) = length segs"
  by (simp add: cues_def length_cues_from)

lemma nth_cues: "k < length segs \<Longrightarrow> cues segs ! k = cue_of (k + 1) (segs ! k)"
  by (simp add: cues_def nth_cues_from)

lemma cue_text_cues_from:
  "c \<in> set (cues_from i segs) \<Longrightarrow> \<exists>seg \<in> set segs. cue_text c = seg_text seg"
  by (induction segs arbitrary: i) (auto simp: cue_of_def)

lemma render_lines_plain:
  assumes "plain_lines segs" "b \<in> set (map render_cue (cues_from i segs))"
  shows "[] \<notin> set b \<and> (\<forall>l \<in> set b. newline \<notin> set l)"
proof -
  from assms(2) obtain c where c: "c \<in> set (cues_from i segs)" "b = render_cue c"
    by auto
  from cue_text_cues_from[OF c(1)] obtain seg where seg: "seg \<in> set segs" "cue_text c = seg_text seg"
    by auto
  from assms(1) seg have "cue_text c \<noteq> []" "newline \<notin> set (cue_text c)"
    by (auto simp: plain_lines_def list_all_iff)
  then show ?thesis
    using show_nat_nonempty[of "cue_index c"]
    using newline_not_in_arrow
    by (auto simp: c(2) render_cue_def newline_not_in_timecode newline_not_in_show_nat)
qed

lemma parse_srt_subtitleText:
  assumes "plain_lines segs"
  shows "parse_srt (subtitleText segs) = Some (cues segs)"
proof (cases segs)
  case Nil
  then show ?thesis by (simp add: parse_srt_def subtitleText_def cues_def)
next
  case (Cons seg rest)
  define blocks where "blocks = map render_cue (cues segs)"
  define lines where "lines = join_with [[]] blocks"
  have blocks_ne: "blocks \<noteq> []"
    by (simp add: blocks_def cues_def Cons)
  have block_ok: "\<forall>b \<in> set blocks. [] \<notin> set b \<and> (\<forall>l \<in> set b. newline \<notin> set l)"
    using render_lines_plain[OF assms] by (simp add: blocks_def cues_def)
  have hd_line: "\<exists>ls. lines = show_nat 1 # ls"
    by (cases rest) (simp_all add: lines_def blocks_def cues_def Cons render_cue_def cue_of_def)
  then have lines_ne: "lines \<noteq> []"
    by auto
  have "\<forall>l \<in> set lines. newline \<notin> set l"
  proof
    fix l assume "l \<in> set lines"
    with set_join_with[of "[[]]" blocks] have "l = [] \<or> (\<exists>b \<in> set blocks. l \<in> set b)"
      by (auto simp: lines_def)
    with block_ok show "newline \<notin> set l" by auto
  qed
  with lines_ne have s1: "split_on newline (join_with [newline] lines) = lines"
    by (simp add: split_on_join)
  from block_ok blocks_ne have s2: "split_on [] lines = blocks"
    by (simp add: lines_def split_on_join)
  from hd_line obtain ls where ls: "lines = show_nat 1 # ls" by auto
  have ne: "join_with [newline] lines \<noteq> []"
    using show_nat_nonempty[of 1] by (cases ls) (simp_all add: ls)
  have doc_eq: "subtitleText segs = join_with [newline] lines"
    by (simp only: subtitleText_def lines_def blocks_def)
  have "parse_srt (subtitleText segs) = parse_all blocks"
    by (simp add: doc_eq parse_srt_def ne s1 s2)
  also have "\<dots> = Some (cues segs)"
    by (simp only: blocks_def parse_all_render)
  finally show ?thesis .
qed

subsection \<open>Evaluating the Formatter on concrete segments\<close>

lemma replicate_small: "replicate 2 x = [x, x]" "replicate 3 x = [x, x, x]"
  by (simp_all add: numeral_2_eq_2 numeral_3_eq_3)

lemmas eval_defs = replicate_small
  cues_def cue_of_def to_millis_def clamped_end_def subtitleText_def render_cue_def
  format_millis_def format_timecode_def zero_pad_def show_nat.simps digit_char_def newline_def
  parse_srt_def parse_cue_def parse_times_def parse_timecode_def parse_nat_def digit_val_def
  plain_lines_def

subsection \<open>Timecodes truncate\<close>

lemma to_millis_bounds:
  assumes "0 \<le> x"
  shows "of_nat (to_millis x) \<le> x * 1000 \<and> x * 1000 < of_nat (to_millis x) + 1"
proof -
  from assms have nn: "0 \<le> \<lfloor>x * 1000\<rfloor>"
    by simp
  then have "(of_nat (to_millis x) :: rat) = of_int \<lfloor>x * 1000\<rfloor>"
    by (simp add: to_millis_def)
  moreover have "rat_of_int \<lfloor>x * 1000\<rfloor> \<le> x * 1000"
    by (rule of_int_floor_le)
  moreover have "x * 1000 < rat_of_int \<lfloor>x * 1000\<rfloor> + 1"
    by linarith
  ultimately show ?thesis
    by simp
qed

lemma format_millis_fields:
  "\<exists>H M S R. format_millis ms = H @ '':'' @ M @ '':'' @ S @ '','' @ R \<and>
     2 \<le> length H \<and> length M = 2 \<and> length S = 2 \<and> length R = 3 \<and>
     (ms < 360000000 \<longrightarrow> length H = 2) \<and>
     parse_nat H = Some (ms div 3600000) \<and>
     parse_nat M = Some (ms div 60000 mod 60) \<and>
     parse_nat S = Some (ms div 1000 mod 60) \<and>
     parse_nat R = Some (ms mod 1000)"
proof -
  let ?H = "zero_pad 2 (show_nat (ms div 3600000))"
  let ?M = "zero_pad 2 (show_nat (ms div 60000 mod 60))"
  let ?S = "zero_pad 2 (show_nat (ms div 1000 mod 60))"
  let ?R = "zero_pad 3 (show_nat (ms mod 1000))"
  have fm: "format_millis ms = ?H @ '':'' @ ?M @ '':'' @ ?S @ '','' @ ?R"
    by (simp add: format_millis_def)
  have "length (show_nat (ms div 60000 mod 60)) \<le> 2"
    by (rule length_show_nat_100) simp
  then have lM: "length ?M = 2"
    by (rule length_zero_pad)
  have "length (show_nat (ms div 1000 mod 60)) \<le> 2"
    by (rule length_show_nat_100) simp
  then have lS: "length ?S = 2"
    by (rule length_zero_pad)
  have "length (show_nat (ms mod 1000)) \<le> 3"
    by (rule length_show_nat_1000) simp
  then have lR: "length ?R = 3"
    by (rule length_zero_pad)
  have lH: "2 \<le> length ?H"
    by (rule length_zero_pad_ge)
  have lH2: "ms < 360000000 \<longrightarrow> length ?H = 2"
  proof
    assume "ms < 360000000"
    then have "ms div 3600000 < 100"
      by simp
    then have "length (show_nat (ms div 3600000)) \<le> 2"
      by (rule length_show_nat_100)
    then show "length ?H = 2"
      by (rule length_zero_pad)
  qed
  from fm lH lM lS lR lH2 parse_nat_zero_pad [of 2 "ms div 3600000"]
    parse_nat_zero_pad [of 2 "ms div 60000 mod 60"]
    parse_nat_zero_pad [of 2 "ms div 1000 mod 60"]
    parse_nat_zero_pad [of 3 "ms mod 1000"]
  show ?thesis
    by blast
qed

lemma to_millis_instances:
  "to_millis (37254 / 10) = 3725400"
  "to_millis (6 / 10000) = 0"
  "to_millis (3661001 / 1000) = 3661001"
  by (simp_all add: to_millis_def)

text \<open>The binary floating-point numbers nearest to 3725.4 and to 0.0006.\<close>

lemma to_millis_double_3725_4: "to_millis (8192241236233421 / 2199023255552) = 3725400"
proof -
  have "\<lfloor>(8192241236233421 / 2199023255552 :: rat) * 1000\<rfloor> = 3725400"
    by (rule floor_unique) simp_all
  then show ?thesis
    by (simp add: to_millis_def)
qed

lemma to_millis_double_0_0006: "to_millis (5534023222112865 / 9223372036854775808) = 0"
proof -
  have "\<lfloor>(5534023222112865 / 9223372036854775808 :: rat) * 1000\<rfloor> = 0"
    by (rule floor_unique) simp_all
  then show ?thesis
    by (simp add: to_millis_def)
qed

lemma format_millis_instances:
  "format_millis 3725400 = ''01:02:05,400''"
  "format_millis 0 = ''00:00:00,000''"
  "format_millis 3661001 = ''01:01:01,001''"
  by (simp_all add: format_millis_def zero_pad_def show_nat.simps digit_char_def replicate_small)

lemma format_timecode_instances:
  "format_timecode (37254 / 10) = ''01:02:05,400''"
  "format_timecode (6 / 10000) = ''00:00:00,000''"
  "format_timecode (8192241236233421 / 2199023255552) = ''01:02:05,400''"
  "format_timecode (5534023222112865 / 9223372036854775808) = ''00:00:00,000''"
  by (simp_all only: format_timecode_def to_millis_instances to_millis_double_3725_4
      to_millis_double_0_0006 format_millis_instances)

text \<open>
  Claim C1. For every non-negative seconds value the timecode is \<open>HH:MM:SS,mmm\<close>:
  four decimal fields separated by two colons and a comma, hours of at least two digits
  (exactly two below 100 hours), minutes and seconds of two digits, milliseconds of
  three, whose values are the hours, minutes, seconds and milliseconds of the value
  truncated to whole milliseconds, never rounded up; read back, the timecode gives that
  number of milliseconds. In particular 3725.4 s gives \<open>01:02:05,400\<close> and 0.0006 s
  gives \<open>00:00:00,000\<close>, for the decimal values and for the binary floating-point
  numbers nearest to them (the last two instances).
\<close>

theorem format_timecode_truncates:
  "(0 \<le> x \<longrightarrow>
      of_nat (to_millis x) \<le> x * 1000 \<and> x * 1000 < of_nat (to_millis x) + 1) \<and>
   (\<exists>H M S R. format_timecode x = H @ '':'' @ M @ '':'' @ S @ '','' @ R \<and>
      2 \<le> length H \<and> length M = 2 \<and> length S = 2 \<and> length R = 3 \<and>
      (to_millis x < 360000000 \<longrightarrow> length H = 2) \<and>
      parse_nat H = Some (to_millis x div 3600000) \<and>
      parse_nat M = Some (to_millis x div 60000 mod 60) \<and>
      parse_nat S = Some (to_millis x div 1000 mod 60) \<and>
      parse_nat R = Some (to_millis x mod 1000)) \<and>
   parse_timecode (format_timecode x) = Some (to_millis x) \<and>
   format_timecode (37254 / 10) = ''01:02:05,400'' \<and>
   format_timecode (6 / 10000) = ''00:00:00,000'' \<and>
   format_timecode (8192241236233421 / 2199023255552) = ''01:02:05,400'' \<and>
   format_timecode (5534023222112865 / 9223372036854775808) = ''00:00:00,000''"
proof -
  have a: "0 \<le> x \<longrightarrow>
      of_nat (to_millis x) \<le> x * 1000 \<and> x * 1000 < of_nat (to_millis x) + 1"
    using to_millis_bounds by blast
  have b: "\<exists>H M S R. format_timecode x = H @ '':'' @ M @ '':'' @ S @ '','' @ R \<and>
      2 \<le> length H \<and> length M = 2 \<and> length S = 2 \<and> length R = 3 \<and>
      (to_millis x < 360000000 \<longrightarrow> length H = 2) \<and>
      parse_nat H = Some (to_millis x div 3600000) \<and>
      parse_nat M = Some (to_millis x div 60000 mod 60) \<and>
      parse_nat S = Some (to_millis x div 1000 mod 60) \<and>
      parse_nat R = Some (to_millis x mod 1000)"
    unfolding format_timecode_def by (rule format_millis_fields)
  have c: "parse_timecode (format_timecode x) = Some (to_millis x)"
    unfolding format_timecode_def by (rule parse_timecode_format_millis)
  from a b c format_timecode_instances show ?thesis
    by blast
qed

text \<open>
  The theorem at 3661.001 s: one hour, one minute, one second and one millisecond.
\<close>

theorem format_timecode_truncates_witness:
  "(0::rat) \<le> 3661001 / 1000 \<and>
   to_millis (3661001 / 1000) = 3661001 \<and>
   format_timecode (3661001 / 1000) = ''01:01:01,001'' \<and>
   parse_timecode ''01:01:01,001'' = Some 3661001"
proof -
  have ev: "(0::rat) \<le> 3661001 / 1000" "to_millis (3661001 / 1000) = 3661001"
    "format_timecode (3661001 / 1000) = ''01:01:01,001''"
    by (simp_all add: format_timecode_def to_millis_instances format_millis_instances)
  from format_timecode_truncates [where x = "3661001 / 1000"]
  have "parse_timecode (format_timecode (3661001 / 1000)) = Some (to_millis (3661001 / 1000))"
    by blast
  then have "parse_timecode ''01:01:01,001'' = Some 3661001"
    by (simp only: ev)
  with ev show ?thesis
    by blast
qed

subsection \<open>One cue per segment\<close>

text \<open>
  Claim C5. \<open>format\<close> emits exactly one cue per input segment, none dropped: the
  k-th cue (counting from 0) carries the text of the k-th segment and the index k + 1,
  its first rendered line reads back as k + 1, and a reader of the whole document finds
  the same cues when the segment texts are plain lines.
\<close>

theorem one_cue_per_segment:
  "length (cues segs) = length segs \<and>
   (\<forall>k < length segs.
      cue_index (cues segs ! k) = k + 1 \<and>
      cue_text (cues segs ! k) = seg_text (segs ! k) \<and>
      parse_nat (hd (render_cue (cues segs ! k))) = Some (k + 1)) \<and>
   (plain_lines segs \<longrightarrow>
      (\<exists>cs. parse_srt (subtitleText segs) = Some cs \<and> length cs = length segs \<and>
         (\<forall>k < length segs. cue_index (cs ! k) = k + 1 \<and> cue_text (cs ! k) = seg_text (segs ! k))))"
proof -
  have a: "\<forall>k < length segs.
      cue_index (cues segs ! k) = k + 1 \<and>
      cue_text (cues segs ! k) = seg_text (segs ! k) \<and>
      parse_nat (hd (render_cue (cues segs ! k))) = Some (k + 1)"
    by (simp add: nth_cues cue_of_def render_cue_def parse_nat_def parse_digits_show_nat
        show_nat_nonempty)
  then have "plain_lines segs \<Longrightarrow>
      (\<exists>cs. parse_srt (subtitleText segs) = Some cs \<and> length cs = length segs \<and>
         (\<forall>k < length segs. cue_index (cs ! k) = k + 1 \<and> cue_text (cs ! k) = seg_text (segs ! k)))"
    by (simp add: parse_srt_subtitleText length_cues)
  with a show ?thesis
    by (simp add: length_cues)
qed

text \<open>
  The theorem at three segments.
\<close>

theorem one_cue_per_segment_witness:
  "plain_lines
     [\<lparr>seg_index = 0, seg_start = 0, seg_end = 2, seg_text = ''one''\<rparr>,
      \<lparr>seg_index = 1, seg_start = 2, seg_end = 5, seg_text = ''two''\<rparr>,
      \<lparr>seg_index = 2, seg_start = 5, seg_end = 6, seg_text = ''three''\<rparr>] \<and>
   length (cues
     [\<lparr>seg_index = 0, seg_start = 0, seg_end = 2, seg_text = ''one''\<rparr>,
      \<lparr>seg_index = 1, seg_start = 2, seg_end = 5, seg_text = ''two''\<rparr>,
      \<lparr>seg_index = 2, seg_start = 5, seg_end = 6, seg_text = ''three''\<rparr>]) = 3 \<and>
   map cue_index (cues
     [\<lparr>seg_index = 0, seg_start = 0, seg_end = 2, seg_text = ''one''\<rparr>,
      \<lparr>seg_index = 1, seg_start = 2, seg_end = 5, seg_text = ''two''\<rparr>,
      \<lparr>seg_index = 2, seg_start = 5, seg_end = 6, seg_text = ''three''\<rparr>]) = [1, 2, 3] \<and>
   parse_srt (subtitleText
     [\<lparr>seg_index = 0, seg_start = 0, seg_end = 2, seg_text = ''one''\<rparr>,
      \<lparr>seg_index = 1, seg_start = 2, seg_end = 5, seg_text = ''two''\<rparr>,
      \<lparr>seg_index = 2, seg_start = 5, seg_end = 6, seg_text = ''three''\<rparr>]) =
     Some [\<lparr>cue_index = 1, cue_start = 0, cue_end = 2000, cue_text = ''one''\<rparr>,
           \<lparr>cue_index = 2, cue_start = 2000, cue_end = 5000, cue_text = ''two''\<rparr>,
           \<lparr>cue_index = 3, cue_start = 5000, cue_end = 6000, cue_text = ''three''\<rparr>]"
proof -
  let ?S = "[\<lparr>seg_index = 0, seg_start = 0, seg_end = 2, seg_text = ''one''\<rparr>,
      \<lparr>seg_index = 1, seg_start = 2, seg_end = 5, seg_text = ''two''\<rparr>,
      \<lparr>seg_index = 2, seg_start = 5, seg_end = 6, seg_text = ''three''\<rparr>]"
  have ev: "plain_lines ?S" "map cue_index (cues ?S) = [1, 2, 3]"
    "parse_srt (subtitleText ?S) =
     Some [\<lparr>cue_index = 1, cue_start = 0, cue_end = 2000, cue_text = ''one''\<rparr>,
           \<lparr>cue_index = 2, cue_start = 2000, cue_end = 5000, cue_text = ''two''\<rparr>,
           \<lparr>cue_index = 3, cue_start = 5000, cue_end = 6000, cue_text = ''three''\<rparr>]"
    by (simp_all add: eval_defs)
  from one_cue_per_segment [where segs = ?S]
  have "length (cues ?S) = length ?S"
    by (rule conjunct1)
  then have "length (cues ?S) = 3"
    by simp
  with ev show ?thesis
    by blast
qed

end
